theory Spec2Isabelle
  imports Complex_Main "HOL-Library.Multiset"
begin

section \<open>Data model\<close>

text \<open>
  The repository holds several variants of one drone route planner. Three of them are
  embedded here:
  \<^item> \<^verbatim>\<open>DronePath/turn2/model1.js\<close>: the tour builder with the bounded-step resolver
    (Policy A); its definitions keep the source's names;
  \<^item> \<^verbatim>\<open>DronePath/turn2/model2.js\<close>: the tour builder with the obstacle-offset resolver
    (Policy B); its definitions carry the suffix \<open>_B\<close>;
  \<^item> the last variant of \<^verbatim>\<open>unnamed/part_000\<close>: the tour builder without a resolver;
    its definitions carry the suffix \<open>_plain\<close>.

  JavaScript numbers are modelled as \<^typ>\<open>real\<close>, and the arithmetic of these
  definitions is exact. A division is the one arithmetic operation that is undefined on
  reals, so it is modelled as a partial operation. The source computes in binary64, where
  every arithmetic result is rounded. Where a property depends on that, the functions
  concerned are given a second time with the suffix \<open>_fl\<close>: they take a rounding function
  \<open>fl\<close> and apply it to the result of every arithmetic operation. With \<open>fl = id\<close> they
  are the exact definitions, with \<open>fl = binary64\<close> they round as the source does. A theorem
  stated for every \<open>fl\<close> does not depend on how results are rounded.
\<close>

text \<open>\<^verbatim>\<open>class Waypoint { constructor(x, y) }\<close>; also the object literals \<^verbatim>\<open>{ x, y }\<close>.\<close>

record point =
  x :: real
  y :: real

text \<open>\<^verbatim>\<open>class Obstacle { constructor(x, y, radius) }\<close>: a point with a radius.\<close>

record obstacle = point +
  radius :: real

text \<open>\<^verbatim>\<open>class LineSegment { constructor(start, end) }\<close> of model1.\<close>

record lineSegment =
  start :: point
  endpt :: point

text \<open>The object literal \<^verbatim>\<open>{ x1, y1, x2, y2 }\<close> that model2 uses for a segment.\<close>

record lineSegment_B =
  x1 :: real
  y1 :: real
  x2 :: real
  y2 :: real

text \<open>\<^verbatim>\<open>class RouteOptimizer { constructor(waypoints, obstacles, safeDistance) }\<close> of model1.\<close>

record RouteOptimizer =
  waypoints :: "point list"
  obstacles :: "obstacle list"
  safeDistance :: real

text \<open>\<^verbatim>\<open>class RouteOptimizer { constructor(waypoints, obstacles) }\<close> of model2.\<close>

record RouteOptimizer_B =
  waypoints_B :: "point list"
  obstacles_B :: "obstacle list"

text \<open>
  An element of a returned route: \<^verbatim>\<open>this.waypoints[0]\<close> of an empty array is
  \<^verbatim>\<open>undefined\<close>, and the route then holds it.
\<close>

datatype jsval = Undefined | Obj point

text \<open>The one \<^verbatim>\<open>throw\<close> of the sources: \<^verbatim>\<open>new Error("No obstacle found")\<close>.\<close>

datatype error = NoObstacleFound

section \<open>Geometry\<close>

text \<open>
  \<^verbatim>\<open>a / b\<close>. \<open>None\<close> stands for a division by zero, whose JavaScript result (an
  infinity or NaN) is no real number.
\<close>

definition js_div :: "real \<Rightarrow> real \<Rightarrow> real option" where
  "js_div a b = (if b = 0 then None else Some (a / b))"

text \<open>
  \<^verbatim>\<open>Math.atan2(dy, dx)\<close>: the angle in \<open>(-\<pi>, \<pi>]\<close> of the vector \<open>(dx, dy)\<close>, and
  \<open>0\<close> for the zero vector.
\<close>

definition atan2 :: "real \<Rightarrow> real \<Rightarrow> real" where
  "atan2 dy dx =
     (if 0 < dx then arctan (dy / dx)
      else if dx < 0 then (if 0 \<le> dy then arctan (dy / dx) + pi else arctan (dy / dx) - pi)
      else if 0 < dy then pi / 2
      else if dy < 0 then - (pi / 2)
      else 0)"

text \<open>\<^verbatim>\<open>Waypoint.distanceTo\<close> and \<^verbatim>\<open>Obstacle.distanceTo\<close>: the same body, reading
  only \<^verbatim>\<open>.x\<close> and \<^verbatim>\<open>.y\<close> of both objects.\<close>

definition distanceTo :: "'a point_scheme \<Rightarrow> 'b point_scheme \<Rightarrow> real" where
  "distanceTo this other = sqrt ((x this - x other)\<^sup>2 + (y this - y other)\<^sup>2)"

text \<open>
  \<^verbatim>\<open>Obstacle.distanceToLineSegment\<close> of model1. The arithmetic is exact here;
  \<open>distanceToLineSegment_fl\<close> below is the same function with rounded arithmetic.
\<close>

definition distanceToLineSegment :: "obstacle \<Rightarrow> lineSegment \<Rightarrow> real option" where
  "distanceToLineSegment this ls =
     (let dx = x (endpt ls) - x (start ls);
          dy = y (endpt ls) - y (start ls);
          lengthSquared = dx\<^sup>2 + dy\<^sup>2
      in if lengthSquared = 0 then Some (distanceTo this (start ls))
         else case js_div ((x this - x (start ls)) * dx + (y this - y (start ls)) * dy)
                          lengthSquared of
                None \<Rightarrow> None
              | Some t \<Rightarrow>
                  (let tClamped = max 0 (min 1 t);
                       nearestX = x (start ls) + tClamped * dx;
                       nearestY = y (start ls) + tClamped * dy
                   in Some (sqrt ((x this - nearestX)\<^sup>2 + (y this - nearestY)\<^sup>2))))"

text \<open>
  \<^verbatim>\<open>Obstacle.intersectsWithLineSegment\<close> of model1: \<^verbatim>\<open>distance <= this.radius\<close>.
  A comparison with NaN is false.
\<close>

definition intersectsWithLineSegment :: "obstacle \<Rightarrow> lineSegment \<Rightarrow> bool" where
  "intersectsWithLineSegment this ls =
     (case distanceToLineSegment this ls of
        None \<Rightarrow> False
      | Some distance \<Rightarrow> distance \<le> radius this)"

text \<open>\<^verbatim>\<open>Obstacle.distanceToLineSegment\<close> of model2.\<close>

definition distanceToLineSegment_B :: "obstacle \<Rightarrow> lineSegment_B \<Rightarrow> real option" where
  "distanceToLineSegment_B this ls =
     (let lineSegmentLength = sqrt ((x2 ls - x1 ls)\<^sup>2 + (y2 ls - y1 ls)\<^sup>2)
      in if lineSegmentLength = 0
         then Some (sqrt ((x this - x1 ls)\<^sup>2 + (y this - y1 ls)\<^sup>2))
         else case js_div ((x this - x1 ls) * (x2 ls - x1 ls) + (y this - y1 ls) * (y2 ls - y1 ls))
                          (lineSegmentLength\<^sup>2) of
                None \<Rightarrow> None
              | Some t \<Rightarrow>
                  (let tClamped = max 0 (min 1 t);
                       nearestX = x1 ls + tClamped * (x2 ls - x1 ls);
                       nearestY = y1 ls + tClamped * (y2 ls - y1 ls)
                   in Some (sqrt ((x this - nearestX)\<^sup>2 + (y this - nearestY)\<^sup>2))))"

text \<open>\<^verbatim>\<open>Obstacle.intersectsWithLineSegment\<close> of model2.\<close>

definition intersectsWithLineSegment_B :: "obstacle \<Rightarrow> lineSegment_B \<Rightarrow> bool" where
  "intersectsWithLineSegment_B this ls =
     (case distanceToLineSegment_B this ls of
        None \<Rightarrow> False
      | Some distance \<Rightarrow> distance \<le> radius this)"

text \<open>
  The points of the line through a segment, for stating where a segment lies: the point at
  parameter \<open>s\<close>, which runs over the segment as \<open>s\<close> runs over \<open>[0, 1]\<close>.
\<close>

definition pointAt :: "lineSegment \<Rightarrow> real \<Rightarrow> point" where
  "pointAt ls s =
     \<lparr>x = x (start ls) + s * (x (endpt ls) - x (start ls)),
      y = y (start ls) + s * (y (endpt ls) - y (start ls))\<rparr>"

section \<open>Tour builders and resolvers\<close>

subsection \<open>model1: the bounded-step resolver (Policy A)\<close>

text \<open>\<^verbatim>\<open>RouteOptimizer.findIntermediateWaypoint(start, end)\<close>.\<close>

definition findIntermediateWaypoint :: "RouteOptimizer \<Rightarrow> point \<Rightarrow> point \<Rightarrow> point" where
  "findIntermediateWaypoint this startW endW =
     (let angle = atan2 (y endW - y startW) (x endW - x startW);
          distance = safeDistance this;
          intermediateX = x startW + distance * cos angle;
          intermediateY = y startW + distance * sin angle
      in \<lparr>x = intermediateX, y = intermediateY\<rparr>)"

text \<open>
  The \<^verbatim>\<open>while\<close> loop of \<^verbatim>\<open>findSafeRoute\<close>, on the variables
  \<^verbatim>\<open>currentWaypoint\<close> and \<^verbatim>\<open>safeRoute\<close>, with the final \<^verbatim>\<open>push(nextWaypoint)\<close>.
  The loop need not end: \<open>None\<close> is the run that does not return. The arithmetic is exact
  here; \<open>findSafeRoute_loop_fl\<close> below is the same loop with rounded arithmetic.
\<close>

partial_function (option) findSafeRoute_loop ::
  "RouteOptimizer \<Rightarrow> point \<Rightarrow> point \<Rightarrow> point list \<Rightarrow> point list option" where
  "findSafeRoute_loop this currentWaypoint nextWaypoint safeRoute =
     (if distanceTo currentWaypoint nextWaypoint > safeDistance this
      then (let intermediateWaypoint = findIntermediateWaypoint this currentWaypoint nextWaypoint
            in findSafeRoute_loop this intermediateWaypoint nextWaypoint
                 (safeRoute @ [intermediateWaypoint]))
      else Some (safeRoute @ [nextWaypoint]))"

text \<open>\<^verbatim>\<open>RouteOptimizer.findSafeRoute(lineSegment)\<close> of model1.\<close>

definition findSafeRoute :: "RouteOptimizer \<Rightarrow> lineSegment \<Rightarrow> point list option" where
  "findSafeRoute this ls = findSafeRoute_loop this (start ls) (endpt ls) [start ls]"

text \<open>\<^verbatim>\<open>RouteOptimizer.isSafeRoute(lineSegment)\<close>: no caller in the sources.\<close>

definition isSafeRoute :: "RouteOptimizer \<Rightarrow> lineSegment \<Rightarrow> bool" where
  "isSafeRoute this ls = (\<not> list_ex (\<lambda>ob. intersectsWithLineSegment ob ls) (obstacles this))"

subsection \<open>The nearest-neighbour selection, shared by all variants\<close>

text \<open>
  \<^verbatim>\<open>unvisitedWaypoints.reduce((minWaypoint, waypoint) => ..., unvisitedWaypoints[0])\<close>:
  a left fold over the whole array, starting from its first element. It is only called on
  a non-empty array (the loop guard).
\<close>

definition closestWaypoint :: "point list \<Rightarrow> point \<Rightarrow> point" where
  "closestWaypoint unvisitedWaypoints currentWaypoint =
     foldl (\<lambda>minWaypoint waypoint.
              if distanceTo waypoint currentWaypoint < distanceTo minWaypoint currentWaypoint
              then waypoint else minWaypoint)
           (unvisitedWaypoints ! 0) unvisitedWaypoints"

text \<open>
  \<^verbatim>\<open>Array.prototype.indexOf\<close>: the first index holding the value, \<open>-1\<close> when there
  is none. JavaScript compares objects by reference; the model compares points by their
  coordinates. For the one call of the sources the two agree: the value looked up is the
  first element of the array at minimum distance (lemma \<open>closestWaypoint_first_min\<close>),
  and an element with the same coordinates has the same distance, so none stands before it.
\<close>

fun indexOf_from :: "'a list \<Rightarrow> 'a \<Rightarrow> int \<Rightarrow> int" where
  "indexOf_from [] v i = - 1"
| "indexOf_from (a # as) v i = (if a = v then i else indexOf_from as v (i + 1))"

definition indexOf :: "'a list \<Rightarrow> 'a \<Rightarrow> int" where
  "indexOf xs v = indexOf_from xs v 0"

text \<open>
  \<^verbatim>\<open>xs.splice(i, 1)\<close>, the array it leaves: a negative start counts from the end
  (clamped at \<open>0\<close>), a start beyond the end removes nothing.
\<close>

definition splice1 :: "'a list \<Rightarrow> int \<Rightarrow> 'a list" where
  "splice1 xs i =
     (let len = int (length xs);
          actualStart = (if i < 0 then max (len + i) 0 else min i len)
      in take (nat actualStart) xs @ drop (nat actualStart + 1) xs)"

text \<open>Every iteration removes one element of a non-empty array: the loops end.\<close>

lemma indexOf_from_range:
  "indexOf_from xs v i = - 1 \<or> (i \<le> indexOf_from xs v i \<and> indexOf_from xs v i < i + int (length xs))"
proof (induction xs arbitrary: i)
  case Nil
  show ?case by simp
next
  case (Cons a as)
  show ?case
  proof (cases "a = v")
    case True
    then show ?thesis by simp
  next
    case False
    with Cons[of "i + 1"] show ?thesis by auto
  qed
qed

lemma length_splice1_indexOf:
  "length (splice1 (u # us) (indexOf (u # us) v)) = length us"
  using indexOf_from_range[of "u # us" v 0]
  by (auto simp: splice1_def indexOf_def Let_def simp del: indexOf_from.simps)

subsection \<open>model1: the tour builder\<close>

text \<open>
  The \<^verbatim>\<open>while (unvisitedWaypoints.length > 0)\<close> loop of \<^verbatim>\<open>optimizeRoute\<close>, on the
  variables \<^verbatim>\<open>route\<close> and \<^verbatim>\<open>unvisitedWaypoints\<close>. The last argument is a ghost
  variable, absent from the source: it records the \<^verbatim>\<open>closestWaypoint\<close> of every
  iteration, so that the selection steps can be counted. \<^verbatim>\<open>route\<close> is never empty
  (it starts as \<^verbatim>\<open>[this.waypoints[0]]\<close> and only grows), so
  \<^verbatim>\<open>route[route.length - 1]\<close> is \<open>last route\<close>.
\<close>

function tourLoop ::
  "RouteOptimizer \<Rightarrow> point list \<Rightarrow> point list \<Rightarrow> point list \<Rightarrow> (point list \<times> point list) option" where
  "tourLoop this route [] picks = Some (route, picks)"
| "tourLoop this route (u # us) picks =
     (let unvisitedWaypoints = u # us;
          currentWaypoint = last route;
          closest = closestWaypoint unvisitedWaypoints currentWaypoint
      in case findSafeRoute this \<lparr>start = currentWaypoint, endpt = closest\<rparr> of
           None \<Rightarrow> None
         | Some safeRoute \<Rightarrow>
             tourLoop this (route @ tl safeRoute)
               (splice1 unvisitedWaypoints (indexOf unvisitedWaypoints closest))
               (picks @ [closest]))"
  by pat_completeness auto

termination
  by (relation "measure (\<lambda>(this, route, unvisited, picks). length unvisited)")
     (simp_all add: length_splice1_indexOf)

text \<open>
  \<^verbatim>\<open>RouteOptimizer.optimizeRoute()\<close> of model1. On an empty \<^verbatim>\<open>waypoints\<close> the
  route is \<^verbatim>\<open>[undefined]\<close>, the loop and the return leg are skipped.
\<close>

definition optimizeRoute :: "RouteOptimizer \<Rightarrow> jsval list option" where
  "optimizeRoute this =
     (case waypoints this of
        [] \<Rightarrow> Some [Undefined]
      | w0 # unvisitedWaypoints \<Rightarrow>
          (case tourLoop this [w0] unvisitedWaypoints [] of
             None \<Rightarrow> None
           | Some (route, picks) \<Rightarrow>
               if length route > 1
               then (case findSafeRoute this \<lparr>start = last route, endpt = route ! 0\<rparr> of
                       None \<Rightarrow> None
                     | Some safeRoute \<Rightarrow> Some (map Obj (route @ tl safeRoute)))
               else Some (map Obj route)))"

subsection \<open>model2: the obstacle-offset resolver (Policy B) and its tour builder\<close>

text \<open>
  \<^verbatim>\<open>RouteOptimizer.findAlternativeSafePath(startWaypoint, endWaypoint)\<close>. The local
  \<^verbatim>\<open>radius\<close> of the source is \<open>offsetRadius\<close> here (\<open>radius\<close> is the field).
\<close>

definition findAlternativeSafePath_B :: "RouteOptimizer_B \<Rightarrow> point \<Rightarrow> point \<Rightarrow> error + point list" where
  "findAlternativeSafePath_B this startWaypoint endWaypoint =
     (case find (\<lambda>ob.
                  let lineSegment = \<lparr>x1 = x startWaypoint, y1 = y startWaypoint,
                                     x2 = x endWaypoint, y2 = y endWaypoint\<rparr>
                  in intersectsWithLineSegment_B ob lineSegment) (obstacles_B this) of
        None \<Rightarrow> Inl NoObstacleFound
      | Some ob \<Rightarrow>
          (let angle = atan2 (y endWaypoint - y startWaypoint) (x endWaypoint - x startWaypoint);
               offsetRadius = radius ob + 1;
               intermediateWaypoint1 =
                 \<lparr>x = x startWaypoint + offsetRadius * cos (angle + pi / 4),
                  y = y startWaypoint + offsetRadius * sin (angle + pi / 4)\<rparr>;
               intermediateWaypoint2 =
                 \<lparr>x = x endWaypoint - offsetRadius * cos (angle - pi / 4),
                  y = y endWaypoint - offsetRadius * sin (angle - pi / 4)\<rparr>
           in Inr [startWaypoint, intermediateWaypoint1, intermediateWaypoint2, endWaypoint]))"

text \<open>\<^verbatim>\<open>RouteOptimizer.findSafeRoute(startWaypoint, endWaypoint)\<close> of model2.\<close>

definition findSafeRoute_B :: "RouteOptimizer_B \<Rightarrow> point \<Rightarrow> point \<Rightarrow> error + point list" where
  "findSafeRoute_B this startWaypoint endWaypoint =
     (let lineSegment = \<lparr>x1 = x startWaypoint, y1 = y startWaypoint,
                         x2 = x endWaypoint, y2 = y endWaypoint\<rparr>
      in if list_ex (\<lambda>ob. intersectsWithLineSegment_B ob lineSegment) (obstacles_B this)
         then findAlternativeSafePath_B this startWaypoint endWaypoint
         else Inr [startWaypoint, endWaypoint])"

text \<open>The \<^verbatim>\<open>while\<close> loop of \<^verbatim>\<open>optimizeRoute\<close> of model2; an exception ends it.\<close>

function tourLoop_B :: "RouteOptimizer_B \<Rightarrow> point list \<Rightarrow> point list \<Rightarrow> error + point list" where
  "tourLoop_B this route [] = Inr route"
| "tourLoop_B this route (u # us) =
     (let unvisitedWaypoints = u # us;
          currentWaypoint = last route;
          closest = closestWaypoint unvisitedWaypoints currentWaypoint
      in case findSafeRoute_B this currentWaypoint closest of
           Inl err \<Rightarrow> Inl err
         | Inr safeRoute \<Rightarrow>
             tourLoop_B this (route @ tl safeRoute)
               (splice1 unvisitedWaypoints (indexOf unvisitedWaypoints closest)))"
  by pat_completeness auto

termination
  by (relation "measure (\<lambda>(this, route, unvisited). length unvisited)")
     (simp_all add: length_splice1_indexOf)

text \<open>\<^verbatim>\<open>RouteOptimizer.optimizeRoute()\<close> of model2.\<close>

definition optimizeRoute_B :: "RouteOptimizer_B \<Rightarrow> error + jsval list" where
  "optimizeRoute_B this =
     (case waypoints_B this of
        [] \<Rightarrow> Inr [Undefined]
      | w0 # unvisitedWaypoints \<Rightarrow>
          (case tourLoop_B this [w0] unvisitedWaypoints of
             Inl err \<Rightarrow> Inl err
           | Inr route \<Rightarrow>
               if length route > 1
               then (case findSafeRoute_B this (last route) (route ! 0) of
                       Inl err \<Rightarrow> Inl err
                     | Inr safeRoute \<Rightarrow> Inr (map Obj (route @ tl safeRoute)))
               else Inr (map Obj route)))"

subsection \<open>The tour builder without a resolver\<close>



subsection \<open>The point test of the grid planner\<close>

text \<open>\<^verbatim>\<open>DroneRouteOptimizer.calculateDistance(point1, point2)\<close> of \<^verbatim>\<open>unnamed/part_001\<close>.\<close>

definition calculateDistance :: "point \<Rightarrow> point \<Rightarrow> real" where
  "calculateDistance point1 point2 = sqrt ((x point2 - x point1)\<^sup>2 + (y point2 - y point1)\<^sup>2)"

text \<open>
  \<^verbatim>\<open>DroneRouteOptimizer.isObstructed(point)\<close> of \<^verbatim>\<open>unnamed/part_001\<close>; the first
  argument is \<^verbatim>\<open>this.obstacles\<close>, an array of points. It tests a point, not a segment,
  against the constant \<open>10\<close>, not a radius.
\<close>

definition isObstructed :: "point list \<Rightarrow> point \<Rightarrow> bool" where
  "isObstructed obstacleList point = list_ex (\<lambda>obstacle. calculateDistance point obstacle < 10) obstacleList"

section \<open>Rounded arithmetic\<close>

subsection \<open>Rounding to binary64\<close>

text \<open>The nearest integer, a tie going to the even one.\<close>

definition round_half_even :: "real \<Rightarrow> int" where
  "round_half_even v =
     (let f = \<lfloor>v\<rfloor>; d = v - of_int f
      in if d < 1 / 2 then f else if 1 / 2 < d then f + 1 else if even f then f else f + 1)"

text \<open>
  The binary64 number nearest to a real number (round to nearest, ties to even): a
  significand of 53 bits, so numbers in \<open>[2\<^sup>e, 2\<^sup>e\<^sup>+\<^sup>1)\<close> are \<open>2\<^sup>e\<^sup>-\<^sup>5\<^sup>2\<close> apart, and the
  exponent is at least \<open>-1022\<close> (below that come the subnormal numbers, \<open>2\<^sup>-\<^sup>1\<^sup>0\<^sup>7\<^sup>4\<close> apart).
  A result beyond the largest binary64 number, which JavaScript turns into an infinity, is
  outside the model. IEEE 754 rounds \<^verbatim>\<open>+\<close>, \<^verbatim>\<open>-\<close>, \<^verbatim>\<open>*\<close>, \<^verbatim>\<open>/\<close> and
  \<^verbatim>\<open>Math.sqrt\<close> in this way. ECMAScript leaves the accuracy of \<^verbatim>\<open>**\<close>,
  \<^verbatim>\<open>Math.cos\<close>, \<^verbatim>\<open>Math.sin\<close> and \<^verbatim>\<open>Math.atan2\<close> to the implementation; they are
  rounded in the same way here. The concrete theorems below use them only where the exact
  result is a binary64 number (squares of small integers and of powers of two,
  \<open>atan2 0 d = 0\<close> for positive \<open>d\<close>, \<open>cos 0 = 1\<close>, \<open>sin 0 = 0\<close>).
\<close>

definition binary64 :: "real \<Rightarrow> real" where
  "binary64 v =
     (if v = 0 then 0
      else let e = max \<lfloor>log 2 \<bar>v\<bar>\<rfloor> (- 1022);
               u = 2 powi (e - 52)
           in u * of_int (round_half_even (v / u)))"

subsection \<open>The geometry and the bounded-step resolver of model1, with rounding\<close>

text \<open>\<^verbatim>\<open>distanceTo\<close>: the subtractions, the squares, the sum and the root are rounded.\<close>

definition distanceTo_fl :: "(real \<Rightarrow> real) \<Rightarrow> 'a point_scheme \<Rightarrow> 'b point_scheme \<Rightarrow> real" where
  "distanceTo_fl fl this other =
     fl (sqrt (fl (fl ((fl (x this - x other))\<^sup>2) + fl ((fl (y this - y other))\<^sup>2))))"

text \<open>\<^verbatim>\<open>RouteOptimizer.findIntermediateWaypoint(start, end)\<close> of model1.\<close>

definition findIntermediateWaypoint_fl ::
  "(real \<Rightarrow> real) \<Rightarrow> RouteOptimizer \<Rightarrow> point \<Rightarrow> point \<Rightarrow> point" where
  "findIntermediateWaypoint_fl fl this startW endW =
     (let angle = fl (atan2 (fl (y endW - y startW)) (fl (x endW - x startW)));
          distance = safeDistance this;
          intermediateX = fl (x startW + fl (distance * fl (cos angle)));
          intermediateY = fl (y startW + fl (distance * fl (sin angle)))
      in \<lparr>x = intermediateX, y = intermediateY\<rparr>)"

text \<open>The \<^verbatim>\<open>while\<close> loop of \<^verbatim>\<open>findSafeRoute\<close> of model1.\<close>

partial_function (option) findSafeRoute_loop_fl ::
  "(real \<Rightarrow> real) \<Rightarrow> RouteOptimizer \<Rightarrow> point \<Rightarrow> point \<Rightarrow> point list \<Rightarrow> point list option" where
  "findSafeRoute_loop_fl fl this currentWaypoint nextWaypoint safeRoute =
     (if distanceTo_fl fl currentWaypoint nextWaypoint > safeDistance this
      then (let intermediateWaypoint =
                  findIntermediateWaypoint_fl fl this currentWaypoint nextWaypoint
            in findSafeRoute_loop_fl fl this intermediateWaypoint nextWaypoint
                 (safeRoute @ [intermediateWaypoint]))
      else Some (safeRoute @ [nextWaypoint]))"

text \<open>\<^verbatim>\<open>RouteOptimizer.findSafeRoute(lineSegment)\<close> of model1.\<close>

definition findSafeRoute_fl :: "(real \<Rightarrow> real) \<Rightarrow> RouteOptimizer \<Rightarrow> lineSegment \<Rightarrow> point list option" where
  "findSafeRoute_fl fl this ls = findSafeRoute_loop_fl fl this (start ls) (endpt ls) [start ls]"

text \<open>
  Policy A in the words of the specification, for comparison with the loop: \<open>r\<close> is a
  subdivision of the leg from \<open>cur\<close> to \<open>toW\<close> with step \<open>s\<close> when, while the computed
  remaining distance to \<open>toW\<close> exceeds \<open>s\<close>, the next point is the current one moved by \<open>s\<close>
  along the bearing \<open>atan2\<close> of the delta from the current point to \<open>toW\<close>, and \<open>toW\<close> is
  appended once the remainder is within \<open>s\<close>.
\<close>

inductive subdivision_fl :: "(real \<Rightarrow> real) \<Rightarrow> real \<Rightarrow> point \<Rightarrow> point \<Rightarrow> point list \<Rightarrow> bool"
  for fl :: "real \<Rightarrow> real" and s :: real and toW :: point where
  append_to: "distanceTo_fl fl cur toW \<le> s \<Longrightarrow> subdivision_fl fl s toW cur [cur, toW]"
| insert_point:
    "s < distanceTo_fl fl cur toW \<Longrightarrow>
     \<theta> = fl (atan2 (fl (y toW - y cur)) (fl (x toW - x cur))) \<Longrightarrow>
     p = \<lparr>x = fl (x cur + fl (s * fl (cos \<theta>))), y = fl (y cur + fl (s * fl (sin \<theta>)))\<rparr> \<Longrightarrow>
     subdivision_fl fl s toW p r \<Longrightarrow>
     subdivision_fl fl s toW cur (cur # r)"




subsection \<open>The tour builder of model1, with rounding\<close>




section \<open>Values of the rounding\<close>

text \<open>
  A number in \<open>[2\<^sup>e, 2\<^sup>e\<^sup>+\<^sup>1)\<close> has the exponent \<open>e\<close>; this evaluates \<open>binary64\<close> at the
  numbers that the concrete theorems meet. \<open>9007199254740992\<close> is \<open>2\<^sup>5\<^sup>3\<close>, where the binary64
  numbers are \<open>2\<close> apart, and \<open>81129638414606681695789005144064\<close> is \<open>2\<^sup>1\<^sup>0\<^sup>6\<close>.
\<close>

lemma floor_log2:
  assumes "2 powi e \<le> v" "v < 2 powi (e + 1)"
  shows "\<lfloor>log 2 v\<rfloor> = e"
proof -
  have "(0::real) < 2 powi e" by (rule zero_less_power_int) simp
  with assms(1) have pos: "0 < v" by linarith
  have "2 powr (of_int e) \<le> v" using assms(1) by (simp add: powr_real_of_int')
  then have 1: "of_int e \<le> log 2 v" using pos by (simp add: le_log_iff)
  have "(2::real) powr (of_int (e + 1)) = 2 powi (e + 1)" using powr_real_of_int'[of "2::real" "e + 1"] by simp
  with assms(2) have "v < 2 powr (of_int e + 1)" by simp
  then have 2: "log 2 v < of_int e + 1" using pos by (simp add: log_less_iff)
  from 1 2 show ?thesis by (rule floor_unique)
qed

lemma binary64_at:
  assumes "2 powi e \<le> \<bar>v\<bar>" "\<bar>v\<bar> < 2 powi (e + 1)" "- 1022 \<le> e"
  shows "binary64 v = 2 powi (e - 52) * of_int (round_half_even (v / 2 powi (e - 52)))"
proof -
  have "(0::real) < 2 powi e" by (rule zero_less_power_int) simp
  with assms(1) have "0 < \<bar>v\<bar>" by linarith
  then have "v \<noteq> 0" by simp
  moreover have "\<lfloor>log 2 \<bar>v\<bar>\<rfloor> = e" using assms(1,2) by (rule floor_log2)
  ultimately show ?thesis using assms(3) by (simp add: binary64_def Let_def max_def)
qed

lemma binary64_values:
  "binary64 0 = 0" "binary64 1 = 1" "binary64 (- 1) = - 1" "binary64 2 = 2"
  "binary64 (- 2) = - 2" "binary64 3 = 3"
  "binary64 (- 3) = - 3" "binary64 4 = 4" "binary64 (- 4) = - 4" "binary64 8 = 8"
  "binary64 9 = 9"
  "binary64 16 = 16" "binary64 64 = 64" "binary64 (1 / 2) = 1 / 2"
  "binary64 9007199254740992 = 9007199254740992"
  "binary64 (18014398509481985 / 2) = 9007199254740992"
  "binary64 (- 9007199254740993) = - 9007199254740992"
  "binary64 81129638414606681695789005144064 = 81129638414606681695789005144064"
proof -
  show "binary64 0 = 0" by (simp add: binary64_def)
  show "binary64 1 = 1"
    by (subst binary64_at[of 0]) (simp_all add: round_half_even_def power_int_minus)
  show "binary64 (- 1) = - 1"
    by (subst binary64_at[of 0]) (simp_all add: round_half_even_def power_int_minus)
  show "binary64 2 = 2"
    by (subst binary64_at[of 1]) (simp_all add: round_half_even_def power_int_minus)
  show "binary64 (- 2) = - 2"
    by (subst binary64_at[of 1]) (simp_all add: round_half_even_def power_int_minus)
  show "binary64 3 = 3"
    by (subst binary64_at[of 1]) (simp_all add: round_half_even_def power_int_minus)
  show "binary64 (- 3) = - 3"
    by (subst binary64_at[of 1]) (simp_all add: round_half_even_def power_int_minus)
  show "binary64 4 = 4"
    by (subst binary64_at[of 2]) (simp_all add: round_half_even_def power_int_minus)
  show "binary64 (- 4) = - 4"
    by (subst binary64_at[of 2]) (simp_all add: round_half_even_def power_int_minus)
  show "binary64 8 = 8"
    by (subst binary64_at[of 3]) (simp_all add: round_half_even_def power_int_minus)
  show "binary64 9 = 9"
    by (subst binary64_at[of 3]) (simp_all add: round_half_even_def power_int_minus)
  show "binary64 16 = 16"
    by (subst binary64_at[of 4]) (simp_all add: round_half_even_def power_int_minus)
  show "binary64 64 = 64"
    by (subst binary64_at[of 6]) (simp_all add: round_half_even_def power_int_minus)
  show "binary64 (1 / 2) = 1 / 2"
    by (subst binary64_at[of "- 1"]) (simp_all add: round_half_even_def power_int_minus)
  show "binary64 9007199254740992 = 9007199254740992"
    by (subst binary64_at[of 53]) (simp_all add: round_half_even_def power_int_minus)
  show "binary64 (18014398509481985 / 2) = 9007199254740992"
    by (subst binary64_at[of 53]) (simp_all add: round_half_even_def power_int_minus)
  show "binary64 (- 9007199254740993) = - 9007199254740992"
    by (subst binary64_at[of 53]) (simp_all add: round_half_even_def power_int_minus)
  show "binary64 81129638414606681695789005144064 = 81129638414606681695789005144064"
    by (subst binary64_at[of 106]) (simp_all add: round_half_even_def power_int_minus)
qed

lemma sqrt_values:
  "sqrt 9 = 3" "sqrt 16 = 4" "sqrt 64 = 8" "sqrt 81129638414606681695789005144064 = 9007199254740992"
  by (rule real_sqrt_unique; simp)+

section \<open>The segment-circle predicate\<close>

text \<open>
  What \<^verbatim>\<open>distanceToLineSegment\<close> returns is the computed distance to the computed
  closest point, whatever the rounding; without rounding the functions are the exact ones.
\<close>

lemma distanceTo_fl_id: "distanceTo_fl id a b = distanceTo a b"
  by (simp add: distanceTo_fl_def distanceTo_def)







text \<open>Every point of the line through that segment is farther from the centre than the radius.\<close>

lemma segment_beyond_radius:
  "radius \<lparr>x = - 1, y = 0, radius = 9007199254740992\<rparr>
     < distanceTo \<lparr>x = - 1, y = 0, radius = 9007199254740992\<rparr>
         (pointAt \<lparr>start = \<lparr>x = 9007199254740992, y = - 1\<rparr>,
                   endpt = \<lparr>x = 9007199254740992, y = 1\<rparr>\<rparr> s)"
proof -
  have "(9007199254740993::real) \<le> sqrt (9007199254740993\<^sup>2 + (1 - s * 2)\<^sup>2)"
    by (rule real_le_rsqrt) simp
  then show ?thesis by (simp add: distanceTo_def pointAt_def)
qed



text \<open>
  The point test of the grid planner is another predicate: its comparison is strict, so a
  point at distance exactly \<open>10\<close> from an obstacle is not obstructed.
\<close>

lemma isObstructed_strict:
  "isObstructed obstacleList p \<longleftrightarrow> (\<exists>ob \<in> set obstacleList. distanceTo p ob < 10)"
  by (simp add: isObstructed_def calculateDistance_def distanceTo_def list_ex_iff power2_commute)

lemma isObstructed_boundary:
  "\<not> isObstructed [\<lparr>x = 10, y = 0\<rparr>] \<lparr>x = 0, y = 0\<rparr>"
proof -
  have "(10::real) \<le> sqrt 100" by (rule real_le_rsqrt) simp
  then show ?thesis by (simp add: isObstructed_def calculateDistance_def)
qed

text \<open>
  Claim C7. On a segment \<open>(a, a)\<close> of length zero the distance computation returns the
  distance from the centre to \<open>a\<close>, and it returns a number: the division is not
  executed there (it would divide by zero, which is \<open>None\<close>). No segment at all makes it
  divide by zero. Both variants.
\<close>

theorem degenerate_segment_no_division:
  "distanceToLineSegment ob \<lparr>start = a, endpt = a\<rparr> = Some (distanceTo ob a)
   \<and> distanceToLineSegment_B ob \<lparr>x1 = x a, y1 = y a, x2 = x a, y2 = y a\<rparr> = Some (distanceTo ob a)
   \<and> distanceToLineSegment ob ls \<noteq> None
   \<and> distanceToLineSegment_B ob lb \<noteq> None"
  by (simp add: distanceToLineSegment_def distanceToLineSegment_B_def js_div_def Let_def distanceTo_def)

section \<open>The obstacle-offset resolver (model2)\<close>

text \<open>
  When some obstacle intersects the leg, \<^verbatim>\<open>find\<close> returns the first one in input
  order, and the detour is built from it.
\<close>

lemma findAlternativeSafePath_B_first:
  assumes "list_ex (\<lambda>ob. intersectsWithLineSegment_B ob
             \<lparr>x1 = x s, y1 = y s, x2 = x e, y2 = y e\<rparr>) (obstacles_B this)"
  shows "\<exists>i < length (obstacles_B this).
           intersectsWithLineSegment_B (obstacles_B this ! i) \<lparr>x1 = x s, y1 = y s, x2 = x e, y2 = y e\<rparr>
         \<and> (\<forall>j < i. \<not> intersectsWithLineSegment_B (obstacles_B this ! j)
                         \<lparr>x1 = x s, y1 = y s, x2 = x e, y2 = y e\<rparr>)
         \<and> findAlternativeSafePath_B this s e =
             Inr [s,
                  \<lparr>x = x s + (radius (obstacles_B this ! i) + 1) * cos (atan2 (y e - y s) (x e - x s) + pi / 4),
                   y = y s + (radius (obstacles_B this ! i) + 1) * sin (atan2 (y e - y s) (x e - x s) + pi / 4)\<rparr>,
                  \<lparr>x = x e - (radius (obstacles_B this ! i) + 1) * cos (atan2 (y e - y s) (x e - x s) - pi / 4),
                   y = y e - (radius (obstacles_B this ! i) + 1) * sin (atan2 (y e - y s) (x e - x s) - pi / 4)\<rparr>,
                  e]"
proof -
  let ?P = "\<lambda>ob. intersectsWithLineSegment_B ob \<lparr>x1 = x s, y1 = y s, x2 = x e, y2 = y e\<rparr>"
  from assms obtain ob where ob: "find ?P (obstacles_B this) = Some ob"
    by (cases "find ?P (obstacles_B this)") (auto simp: find_None_iff list_ex_iff)
  then obtain i where i: "i < length (obstacles_B this)" "?P (obstacles_B this ! i)"
      "ob = obstacles_B this ! i" "\<forall>j<i. \<not> ?P (obstacles_B this ! j)"
    unfolding find_Some_iff by blast
  have "findAlternativeSafePath_B this s e =
             Inr [s,
                  \<lparr>x = x s + (radius ob + 1) * cos (atan2 (y e - y s) (x e - x s) + pi / 4),
                   y = y s + (radius ob + 1) * sin (atan2 (y e - y s) (x e - x s) + pi / 4)\<rparr>,
                  \<lparr>x = x e - (radius ob + 1) * cos (atan2 (y e - y s) (x e - x s) - pi / 4),
                   y = y e - (radius ob + 1) * sin (atan2 (y e - y s) (x e - x s) - pi / 4)\<rparr>,
                  e]"
    using ob by (simp add: findAlternativeSafePath_B_def Let_def)
  with i show ?thesis by blast
qed

lemma atan2_east: "0 < d \<Longrightarrow> atan2 0 d = 0"
  by (simp add: atan2_def)



text \<open>
  Claim C8. Whenever some obstacle intersects the straight leg, which is the condition
  under which \<^verbatim>\<open>findSafeRoute\<close> calls \<^verbatim>\<open>findAlternativeSafePath\<close>, the detour
  constructor does not raise "No obstacle found": it returns a route. So
  \<^verbatim>\<open>findSafeRoute\<close> never raises it, on any input.
\<close>

theorem no_obstacle_found_unreachable:
  "(list_ex (\<lambda>ob. intersectsWithLineSegment_B ob \<lparr>x1 = x s, y1 = y s, x2 = x e, y2 = y e\<rparr>)
      (obstacles_B this)
      \<longrightarrow> findAlternativeSafePath_B this s e \<noteq> Inl NoObstacleFound
          \<and> (\<exists>r. findAlternativeSafePath_B this s e = Inr r))
   \<and> findSafeRoute_B this s e \<noteq> Inl NoObstacleFound
   \<and> (\<exists>r. findSafeRoute_B this s e = Inr r)"
proof -
  have a: "\<exists>r. findAlternativeSafePath_B this s e = Inr r"
    if "list_ex (\<lambda>ob. intersectsWithLineSegment_B ob \<lparr>x1 = x s, y1 = y s, x2 = x e, y2 = y e\<rparr>)
      (obstacles_B this)"
    using findAlternativeSafePath_B_first[OF that] by blast
  have b: "\<exists>r. findSafeRoute_B this s e = Inr r"
    using a by (simp add: findSafeRoute_B_def Let_def)
  from a b show ?thesis by auto
qed

text \<open>An obstacle centred on the leg: the precondition holds and a detour is returned.\<close>

theorem no_obstacle_found_unreachable_witness:
  "list_ex (\<lambda>ob. intersectsWithLineSegment_B ob \<lparr>x1 = 0, y1 = 0, x2 = 10, y2 = 0\<rparr>)
      [\<lparr>x = 5, y = 0, radius = 2\<rparr>]
   \<and> (\<exists>r. findAlternativeSafePath_B \<lparr>waypoints_B = [], obstacles_B = [\<lparr>x = 5, y = 0, radius = 2\<rparr>]\<rparr>
         \<lparr>x = 0, y = 0\<rparr> \<lparr>x = 10, y = 0\<rparr> = Inr r)"
proof -
  have h: "list_ex (\<lambda>ob. intersectsWithLineSegment_B ob \<lparr>x1 = 0, y1 = 0, x2 = 10, y2 = 0\<rparr>)
      [\<lparr>x = 5, y = 0, radius = 2\<rparr>]"
    by (simp add: intersectsWithLineSegment_B_def distanceToLineSegment_B_def js_div_def Let_def)
  show ?thesis
    using h no_obstacle_found_unreachable
      [of "\<lparr>x = 0, y = 0\<rparr>" "\<lparr>x = 10, y = 0\<rparr>"
          "\<lparr>waypoints_B = [], obstacles_B = [\<lparr>x = 5, y = 0, radius = 2\<rparr>]\<rparr>"]
    by simp
qed

section \<open>The nearest-neighbour selection\<close>

text \<open>
  The left fold with the strict comparison returns the first element of minimum distance:
  every element is at least as far, every earlier element is strictly farther.
\<close>

lemma foldl_min_first:
  fixes d :: "'a \<Rightarrow> real"
  defines "f \<equiv> \<lambda>m w. if d w < d m then w else m"
  shows "\<exists>i < length (m # xs). foldl f m xs = (m # xs) ! i
           \<and> (\<forall>j < length (m # xs). d ((m # xs) ! i) \<le> d ((m # xs) ! j))
           \<and> (\<forall>j < i. d ((m # xs) ! i) < d ((m # xs) ! j))"
proof (induction xs rule: rev_induct)
  case Nil
  show ?case by simp
next
  case (snoc a xs)
  then obtain i where i: "i < length (m # xs)" "foldl f m xs = (m # xs) ! i"
      "\<forall>j < length (m # xs). d ((m # xs) ! i) \<le> d ((m # xs) ! j)"
      "\<forall>j < i. d ((m # xs) ! i) < d ((m # xs) ! j)"
    by blast
  let ?ys = "m # xs @ [a]"
  have nth_old: "?ys ! j = (m # xs) ! j" if "j < length (m # xs)" for j
    using that by (metis append_Cons nth_append)
  have nth_new: "?ys ! length (m # xs) = a"
    by (metis append_Cons nth_append_length)
  show ?case
  proof (cases "d a < d ((m # xs) ! i)")
    case True
    have c: "foldl f m (xs @ [a]) = a" using True i(2) by (simp add: f_def)
    have "\<forall>j < length ?ys. d a \<le> d (?ys ! j)"
    proof (intro allI impI)
      fix j assume "j < length ?ys"
      then consider "j < length (m # xs)" | "j = length (m # xs)" by fastforce
      then show "d a \<le> d (?ys ! j)"
      proof cases
        case 1
        with i(3) True nth_old[OF 1] show ?thesis by fastforce
      next
        case 2
        with nth_new show ?thesis by simp
      qed
    qed
    moreover have "\<forall>j < length (m # xs). d a < d (?ys ! j)"
    proof (intro allI impI)
      fix j assume j: "j < length (m # xs)"
      with i(3) True nth_old[OF j] show "d a < d (?ys ! j)" by fastforce
    qed
    ultimately show ?thesis
      using c nth_new by (intro exI[of _ "length (m # xs)"]) simp
  next
    case False
    have c: "foldl f m (xs @ [a]) = (m # xs) ! i" using False i(2) by (simp add: f_def)
    have "\<forall>j < length ?ys. d (?ys ! i) \<le> d (?ys ! j)"
    proof (intro allI impI)
      fix j assume "j < length ?ys"
      then consider "j < length (m # xs)" | "j = length (m # xs)" by fastforce
      then show "d (?ys ! i) \<le> d (?ys ! j)"
      proof cases
        case 1
        with i(3) nth_old[OF 1] nth_old[OF i(1)] show ?thesis by simp
      next
        case 2
        with nth_new False nth_old[OF i(1)] show ?thesis by simp
      qed
    qed
    moreover have "\<forall>j < i. d (?ys ! i) < d (?ys ! j)"
    proof (intro allI impI)
      fix j assume j: "j < i"
      then have "j < length (m # xs)" using i(1) by simp
      with i(4) j nth_old[OF this] nth_old[OF i(1)] show "d (?ys ! i) < d (?ys ! j)" by simp
    qed
    ultimately show ?thesis
      using c i(1) nth_old[OF i(1)] by (intro exI[of _ i]) simp
  qed
qed

lemma closestWaypoint_first_min:
  assumes "unvisited \<noteq> []"
  shows "\<exists>i < length unvisited. closestWaypoint unvisited current = unvisited ! i
           \<and> (\<forall>j < length unvisited.
                 distanceTo (unvisited ! i) current \<le> distanceTo (unvisited ! j) current)
           \<and> (\<forall>j < i. distanceTo (unvisited ! i) current < distanceTo (unvisited ! j) current)"
proof -
  obtain u us where u: "unvisited = u # us" using assms by (cases unvisited) auto
  have "closestWaypoint unvisited current =
          foldl (\<lambda>m w. if distanceTo w current < distanceTo m current then w else m) u us"
    by (simp add: closestWaypoint_def u)
  with foldl_min_first[where d = "\<lambda>w. distanceTo w current" and m = u and xs = us] show ?thesis
    unfolding u by simp
qed

lemma indexOf_from_first:
  "i < length xs \<Longrightarrow> xs ! i = v \<Longrightarrow> (\<forall>j < i. xs ! j \<noteq> v) \<Longrightarrow> indexOf_from xs v k = k + int i"
proof (induction xs arbitrary: i k)
  case Nil
  then show ?case by simp
next
  case (Cons a as)
  show ?case
  proof (cases i)
    case 0
    with Cons.prems show ?thesis by simp
  next
    case (Suc n)
    have "a \<noteq> v" using Cons.prems(3) Suc by auto
    moreover have "indexOf_from as v (k + 1) = k + 1 + int n"
      using Cons.prems Suc by (intro Cons.IH) auto
    ultimately show ?thesis using Suc by simp
  qed
qed

lemma splice1_at: "i < length xs \<Longrightarrow> splice1 xs (int i) = take i xs @ drop (Suc i) xs"
  by (simp add: splice1_def Let_def)

lemma select_and_remove:
  assumes "unvisited \<noteq> []"
  shows "\<exists>i < length unvisited. closestWaypoint unvisited current = unvisited ! i
           \<and> (\<forall>j < length unvisited.
                 distanceTo (unvisited ! i) current \<le> distanceTo (unvisited ! j) current)
           \<and> (\<forall>j < i. distanceTo (unvisited ! i) current < distanceTo (unvisited ! j) current)
           \<and> splice1 unvisited (indexOf unvisited (closestWaypoint unvisited current))
               = take i unvisited @ drop (Suc i) unvisited"
proof -
  obtain i where i: "i < length unvisited" "closestWaypoint unvisited current = unvisited ! i"
      "\<forall>j < length unvisited. distanceTo (unvisited ! i) current \<le> distanceTo (unvisited ! j) current"
      "\<forall>j < i. distanceTo (unvisited ! i) current < distanceTo (unvisited ! j) current"
    using closestWaypoint_first_min[OF assms] by blast
  have "\<forall>j < i. unvisited ! j \<noteq> unvisited ! i"
    using i(4) by fastforce
  then have "indexOf unvisited (unvisited ! i) = int i"
    using indexOf_from_first[OF i(1) refl, of 0] by (simp add: indexOf_def)
  then have "splice1 unvisited (indexOf unvisited (closestWaypoint unvisited current))
               = take i unvisited @ drop (Suc i) unvisited"
    using i(1,2) by (simp add: splice1_at)
  with i show ?thesis by blast
qed



section \<open>The bounded-step resolver (model1)\<close>

text \<open>Without rounding the functions with the suffix \<open>_fl\<close> are the exact ones.\<close>

lemma findIntermediateWaypoint_fl_id:
  "findIntermediateWaypoint_fl id this a b = findIntermediateWaypoint this a b"
  by (simp add: findIntermediateWaypoint_fl_def findIntermediateWaypoint_def)

lemma findSafeRoute_loop_fl_id_Some:
  assumes a: "findSafeRoute_loop_fl fl this cur nxt acc = Some r"
  shows "fl = id \<longrightarrow> findSafeRoute_loop this cur nxt acc = Some r"
proof (rule findSafeRoute_loop_fl.raw_induct
    [where P = "\<lambda>fl this cur nxt acc r. fl = id \<longrightarrow> findSafeRoute_loop this cur nxt acc = Some r",
     OF _ a])
  fix f and fl :: "real \<Rightarrow> real" and this :: RouteOptimizer and cur nxt :: point
    and acc r :: "point list"
  assume IH: "\<And>fl this cur nxt acc r. f fl this cur nxt acc = Some r \<Longrightarrow>
                fl = id \<longrightarrow> findSafeRoute_loop this cur nxt acc = Some r"
    and eq: "(if safeDistance this < distanceTo_fl fl cur nxt
              then let intermediateWaypoint = findIntermediateWaypoint_fl fl this cur nxt
                   in f fl this intermediateWaypoint nxt (acc @ [intermediateWaypoint])
              else Some (acc @ [nxt])) = Some r"
  show "fl = id \<longrightarrow> findSafeRoute_loop this cur nxt acc = Some r"
  proof
    assume i: "fl = id"
    show "findSafeRoute_loop this cur nxt acc = Some r"
    proof (cases "safeDistance this < distanceTo cur nxt")
      case True
      with eq i have "f id this (findIntermediateWaypoint this cur nxt) nxt
          (acc @ [findIntermediateWaypoint this cur nxt]) = Some r"
        by (simp add: Let_def distanceTo_fl_id findIntermediateWaypoint_fl_id)
      from IH[OF this] True show ?thesis
        by (subst findSafeRoute_loop.simps) (simp add: Let_def)
    next
      case False
      with eq i show ?thesis
        by (subst findSafeRoute_loop.simps) (simp add: distanceTo_fl_id)
    qed
  qed
qed

lemma findSafeRoute_loop_id_Some:
  assumes a: "findSafeRoute_loop this cur nxt acc = Some r"
  shows "findSafeRoute_loop_fl id this cur nxt acc = Some r"
proof (rule findSafeRoute_loop.raw_induct
    [where P = "\<lambda>this cur nxt acc r. findSafeRoute_loop_fl id this cur nxt acc = Some r", OF _ a])
  fix f and this :: RouteOptimizer and cur nxt :: point and acc r :: "point list"
  assume IH: "\<And>this cur nxt acc r. f this cur nxt acc = Some r \<Longrightarrow>
                findSafeRoute_loop_fl id this cur nxt acc = Some r"
    and eq: "(if safeDistance this < distanceTo cur nxt
              then let intermediateWaypoint = findIntermediateWaypoint this cur nxt
                   in f this intermediateWaypoint nxt (acc @ [intermediateWaypoint])
              else Some (acc @ [nxt])) = Some r"
  show "findSafeRoute_loop_fl id this cur nxt acc = Some r"
  proof (cases "safeDistance this < distanceTo cur nxt")
    case True
    with eq have "f this (findIntermediateWaypoint this cur nxt) nxt
        (acc @ [findIntermediateWaypoint this cur nxt]) = Some r"
      by (simp add: Let_def)
    from IH[OF this] True show ?thesis
      by (subst findSafeRoute_loop_fl.simps)
         (simp add: Let_def distanceTo_fl_id findIntermediateWaypoint_fl_id)
  next
    case False
    with eq show ?thesis
      by (subst findSafeRoute_loop_fl.simps) (simp add: distanceTo_fl_id)
  qed
qed

lemma findSafeRoute_fl_id: "findSafeRoute_fl id this ls = findSafeRoute this ls"
proof (cases "findSafeRoute this ls")
  case (Some r)
  then show ?thesis
    using findSafeRoute_loop_id_Some[of this "start ls" "endpt ls" "[start ls]" r]
    by (simp add: findSafeRoute_fl_def findSafeRoute_def)
next
  case None
  show ?thesis
  proof (cases "findSafeRoute_fl id this ls")
    case None
    with \<open>findSafeRoute this ls = None\<close> show ?thesis by simp
  next
    case (Some r)
    then have "findSafeRoute_loop_fl id this (start ls) (endpt ls) [start ls] = Some r"
      by (simp add: findSafeRoute_fl_def)
    from findSafeRoute_loop_fl_id_Some[OF this] None show ?thesis
      by (simp add: findSafeRoute_def)
  qed
qed

text \<open>
  Whatever the rounding, the loop returns a subdivision of the leg when it returns, and it
  returns the subdivision when there is one.
\<close>

lemma findSafeRoute_loop_fl_sound:
  assumes a: "findSafeRoute_loop_fl fl this cur nxt acc = Some r"
  shows "\<exists>r'. r = acc @ r' \<and> subdivision_fl fl (safeDistance this) nxt cur (cur # r')"
proof (rule findSafeRoute_loop_fl.raw_induct
    [where P = "\<lambda>fl this cur nxt acc r.
        \<exists>r'. r = acc @ r' \<and> subdivision_fl fl (safeDistance this) nxt cur (cur # r')", OF _ a])
  fix f and fl :: "real \<Rightarrow> real" and this :: RouteOptimizer and cur nxt :: point
    and acc r :: "point list"
  assume IH: "\<And>fl this cur nxt acc r. f fl this cur nxt acc = Some r \<Longrightarrow>
                \<exists>r'. r = acc @ r' \<and> subdivision_fl fl (safeDistance this) nxt cur (cur # r')"
    and eq: "(if safeDistance this < distanceTo_fl fl cur nxt
              then let intermediateWaypoint = findIntermediateWaypoint_fl fl this cur nxt
                   in f fl this intermediateWaypoint nxt (acc @ [intermediateWaypoint])
              else Some (acc @ [nxt])) = Some r"
  show "\<exists>r'. r = acc @ r' \<and> subdivision_fl fl (safeDistance this) nxt cur (cur # r')"
  proof (cases "safeDistance this < distanceTo_fl fl cur nxt")
    case True
    define w where "w = findIntermediateWaypoint_fl fl this cur nxt"
    from True eq have "f fl this w nxt (acc @ [w]) = Some r"
      by (simp add: Let_def w_def)
    from IH[OF this] obtain r' where r': "r = (acc @ [w]) @ r'"
        "subdivision_fl fl (safeDistance this) nxt w (w # r')"
      by blast
    have weq: "w = \<lparr>x = fl (x cur + fl (safeDistance this
                       * fl (cos (fl (atan2 (fl (y nxt - y cur)) (fl (x nxt - x cur))))))),
                    y = fl (y cur + fl (safeDistance this
                       * fl (sin (fl (atan2 (fl (y nxt - y cur)) (fl (x nxt - x cur)))))))\<rparr>"
      by (simp add: w_def findIntermediateWaypoint_fl_def Let_def)
    have "subdivision_fl fl (safeDistance this) nxt cur (cur # w # r')"
      by (rule subdivision_fl.insert_point[OF True refl weq r'(2)])
    with r'(1) show ?thesis by simp
  next
    case False
    then have "subdivision_fl fl (safeDistance this) nxt cur [cur, nxt]"
      by (intro subdivision_fl.append_to) simp
    with False eq show ?thesis by auto
  qed
qed

lemma findSafeRoute_loop_fl_complete:
  "subdivision_fl fl (safeDistance this) nxt cur r \<Longrightarrow>
     findSafeRoute_loop_fl fl this cur nxt acc = Some (acc @ tl r)"
proof (induction arbitrary: acc rule: subdivision_fl.induct)
  case (append_to cur)
  then show ?case by (subst findSafeRoute_loop_fl.simps) simp
next
  case (insert_point cur \<theta> p r)
  have w: "findIntermediateWaypoint_fl fl this cur nxt = p"
    using insert_point(2,3) by (simp add: findIntermediateWaypoint_fl_def Let_def)
  have hd: "r = p # tl r" using insert_point(4) by (cases rule: subdivision_fl.cases) auto
  have "findSafeRoute_loop_fl fl this cur nxt acc
          = findSafeRoute_loop_fl fl this p nxt (acc @ [p])"
    using insert_point(1) by (subst findSafeRoute_loop_fl.simps) (simp add: w Let_def)
  also have "\<dots> = Some ((acc @ [p]) @ tl r)" by (rule insert_point.IH)
  also have "(acc @ [p]) @ tl r = acc @ tl (cur # r)" using hd by (metis append.assoc append_Cons append_Nil list.sel(3))
  finally show ?case .
qed

lemma subdivision_fl_ends:
  "subdivision_fl fl s toW cur r \<Longrightarrow> hd r = cur \<and> last r = toW \<and> 2 \<le> length r"
  by (induction rule: subdivision_fl.induct) (auto split: if_splits)

text \<open>
  In binary64, on the leg from \<open>(2\<^sup>5\<^sup>3, 0)\<close> to \<open>(2\<^sup>5\<^sup>3 + 4, 0)\<close> with step length \<open>1/2\<close>: the computed
  distances, the next point, which is the current one, and the loop, which does not return.
\<close>

lemma stall_distance:
  "distanceTo_fl binary64 \<lparr>x = 9007199254740992, y = 0\<rparr> \<lparr>x = 9007199254740996, y = 0\<rparr> = 4"
  by (simp add: distanceTo_fl_def binary64_values sqrt_values)


lemma stall_step:
  assumes "safeDistance this = 1 / 2"
  shows "findIntermediateWaypoint_fl binary64 this
     \<lparr>x = 9007199254740992, y = 0\<rparr> \<lparr>x = 9007199254740996, y = 0\<rparr>
   = \<lparr>x = 9007199254740992, y = 0\<rparr>"
  unfolding findIntermediateWaypoint_fl_def Let_def assms
  by (simp add: binary64_values atan2_east)

lemma stall_loop:
  assumes a: "findSafeRoute_loop_fl fl this cur nxt acc = Some r"
  shows "\<not> (fl = binary64 \<and> safeDistance this = 1 / 2
            \<and> cur = \<lparr>x = 9007199254740992, y = 0\<rparr> \<and> nxt = \<lparr>x = 9007199254740996, y = 0\<rparr>)"
proof (rule findSafeRoute_loop_fl.raw_induct
    [where P = "\<lambda>fl this cur nxt acc r.
        \<not> (fl = binary64 \<and> safeDistance this = 1 / 2
            \<and> cur = \<lparr>x = 9007199254740992, y = 0\<rparr> \<and> nxt = \<lparr>x = 9007199254740996, y = 0\<rparr>)",
     OF _ a])
  fix f and fl :: "real \<Rightarrow> real" and this :: RouteOptimizer and cur nxt :: point
    and acc r :: "point list"
  assume IH: "\<And>fl this cur nxt acc r. f fl this cur nxt acc = Some r \<Longrightarrow>
        \<not> (fl = binary64 \<and> safeDistance this = 1 / 2
            \<and> cur = \<lparr>x = 9007199254740992, y = 0\<rparr> \<and> nxt = \<lparr>x = 9007199254740996, y = 0\<rparr>)"
    and eq: "(if safeDistance this < distanceTo_fl fl cur nxt
              then let intermediateWaypoint = findIntermediateWaypoint_fl fl this cur nxt
                   in f fl this intermediateWaypoint nxt (acc @ [intermediateWaypoint])
              else Some (acc @ [nxt])) = Some r"
  show "\<not> (fl = binary64 \<and> safeDistance this = 1 / 2
            \<and> cur = \<lparr>x = 9007199254740992, y = 0\<rparr> \<and> nxt = \<lparr>x = 9007199254740996, y = 0\<rparr>)"
  proof
    assume h: "fl = binary64 \<and> safeDistance this = 1 / 2
            \<and> cur = \<lparr>x = 9007199254740992, y = 0\<rparr> \<and> nxt = \<lparr>x = 9007199254740996, y = 0\<rparr>"
    then have e: "fl = binary64" "cur = \<lparr>x = 9007199254740992, y = 0\<rparr>"
        "nxt = \<lparr>x = 9007199254740996, y = 0\<rparr>" and s: "safeDistance this = 1 / 2"
      by blast+
    have d: "safeDistance this < distanceTo_fl fl cur nxt"
      unfolding e s stall_distance by simp
    have w: "findIntermediateWaypoint_fl fl this cur nxt = cur"
      unfolding e by (rule stall_step[OF s])
    from eq d have "f fl this cur nxt (acc @ [cur]) = Some r"
      by (simp only: if_True Let_def w)
    from IH[OF this] h show False by blast
  qed
qed

lemma stall_resolver:
  assumes "safeDistance this = 1 / 2"
  shows "findSafeRoute_fl binary64 this
       \<lparr>start = \<lparr>x = 9007199254740992, y = 0\<rparr>, endpt = \<lparr>x = 9007199254740996, y = 0\<rparr>\<rparr> = None"
proof -
  have "findSafeRoute_loop_fl binary64 this
       \<lparr>x = 9007199254740992, y = 0\<rparr> \<lparr>x = 9007199254740996, y = 0\<rparr>
       [\<lparr>x = 9007199254740992, y = 0\<rparr>] = None"
  proof (rule ccontr)
    assume "\<not> ?thesis"
    then obtain r where "findSafeRoute_loop_fl binary64 this
       \<lparr>x = 9007199254740992, y = 0\<rparr> \<lparr>x = 9007199254740996, y = 0\<rparr>
       [\<lparr>x = 9007199254740992, y = 0\<rparr>] = Some r"
      by auto
    from stall_loop[OF this] assms show False by simp
  qed
  then show ?thesis by (simp add: findSafeRoute_fl_def)
qed

text \<open>
  Claim C5 says that the resolver returns a sequence for every leg and every positive step
  length. It fails on the code, which computes in binary64: on the leg from \<open>(2\<^sup>5\<^sup>3, 0)\<close>
  to \<open>(2\<^sup>5\<^sup>3 + 4, 0)\<close> with step length \<open>1/2\<close> the remaining distance is \<open>4\<close>, the next point is
  \<open>(2\<^sup>5\<^sup>3 + 1/2, 0)\<close> rounded, which is \<open>(2\<^sup>5\<^sup>3, 0)\<close> again, and the loop does not return.
\<close>

theorem resolver_stalls_binary64:
  "0 < safeDistance \<lparr>waypoints = [], obstacles = [], safeDistance = 1 / 2\<rparr>
   \<and> findSafeRoute_fl binary64 \<lparr>waypoints = [], obstacles = [], safeDistance = 1 / 2\<rparr>
       \<lparr>start = \<lparr>x = 9007199254740992, y = 0\<rparr>, endpt = \<lparr>x = 9007199254740996, y = 0\<rparr>\<rparr> = None"
  using stall_resolver[of "\<lparr>waypoints = [], obstacles = [], safeDistance = 1 / 2\<rparr>"] by simp

text \<open>
  Claim C5 as amended. For every leg, every step length \<open>s\<close> and whatever the rounding, the
  Policy A resolver returns the sequence \<open>r\<close> exactly when \<open>r\<close> is the subdivision of the
  leg: while the computed remaining distance to \<open>to\<close> exceeds \<open>s\<close> the next point is the
  current one moved by \<open>s\<close> along the bearing \<open>atan2\<close> of the delta towards \<open>to\<close>, and \<open>to\<close>
  is appended once the remainder is within \<open>s\<close>. Such a sequence starts at \<open>from\<close> and ends
  at \<open>to\<close>. On a leg within \<open>s\<close> the resolver returns \<open>[from, to]\<close>. Without rounding the
  resolver is the one of the exact model. That the resolver returns for every positive
  \<open>s\<close> is not part of the amended claim.
\<close>

theorem resolver_subdivision:
  "(findSafeRoute_fl fl this \<lparr>start = fromW, endpt = toW\<rparr> = Some r
      \<longleftrightarrow> subdivision_fl fl (safeDistance this) toW fromW r)
   \<and> (subdivision_fl fl (safeDistance this) toW fromW r \<longrightarrow> hd r = fromW \<and> last r = toW)
   \<and> (distanceTo_fl fl fromW toW \<le> safeDistance this \<longrightarrow>
        findSafeRoute_fl fl this \<lparr>start = fromW, endpt = toW\<rparr> = Some [fromW, toW])
   \<and> findSafeRoute_fl id this ls = findSafeRoute this ls"
proof (intro conjI impI)
  show "findSafeRoute_fl fl this \<lparr>start = fromW, endpt = toW\<rparr> = Some r
      \<longleftrightarrow> subdivision_fl fl (safeDistance this) toW fromW r" (is "?L \<longleftrightarrow> ?R")
  proof
    assume ?L
    then have "findSafeRoute_loop_fl fl this fromW toW [fromW] = Some r"
      by (simp add: findSafeRoute_fl_def)
    from findSafeRoute_loop_fl_sound[OF this] show ?R by auto
  next
    assume R: ?R
    then have "hd r = fromW" "2 \<le> length r" using subdivision_fl_ends by blast+
    then have "r = fromW # tl r" by (cases r) auto
    with findSafeRoute_loop_fl_complete[OF R, of "[fromW]"] show ?L
      by (simp add: findSafeRoute_fl_def)
  qed
next
  assume "subdivision_fl fl (safeDistance this) toW fromW r"
  then show "hd r = fromW" "last r = toW" using subdivision_fl_ends by blast+
next
  assume "distanceTo_fl fl fromW toW \<le> safeDistance this"
  then show "findSafeRoute_fl fl this \<lparr>start = fromW, endpt = toW\<rparr> = Some [fromW, toW]"
    unfolding findSafeRoute_fl_def by (subst findSafeRoute_loop_fl.simps) simp
next
  show "findSafeRoute_fl id this ls = findSafeRoute this ls" by (rule findSafeRoute_fl_id)
qed

text \<open>
  In binary64, the leg from \<open>(0, 0)\<close> to \<open>(3, 0)\<close> with step \<open>2\<close>: one point is inserted,
  \<open>(2, 0)\<close>; the leg from there is within the step.
\<close>

theorem resolver_subdivision_witness:
  "findSafeRoute_fl binary64 \<lparr>waypoints = [], obstacles = [], safeDistance = 2\<rparr>
       \<lparr>start = \<lparr>x = 0, y = 0\<rparr>, endpt = \<lparr>x = 3, y = 0\<rparr>\<rparr>
     = Some [\<lparr>x = 0, y = 0\<rparr>, \<lparr>x = 2, y = 0\<rparr>, \<lparr>x = 3, y = 0\<rparr>]
   \<and> findSafeRoute_fl binary64 \<lparr>waypoints = [], obstacles = [], safeDistance = 2\<rparr>
       \<lparr>start = \<lparr>x = 2, y = 0\<rparr>, endpt = \<lparr>x = 3, y = 0\<rparr>\<rparr>
     = Some [\<lparr>x = 2, y = 0\<rparr>, \<lparr>x = 3, y = 0\<rparr>]
   \<and> hd [\<lparr>x = 0, y = 0\<rparr>, \<lparr>x = 2, y = 0\<rparr>, \<lparr>x = 3, y = 0\<rparr>] = \<lparr>x = 0, y = 0\<rparr>
   \<and> last [\<lparr>x = 0, y = 0\<rparr>, \<lparr>x = 2, y = 0\<rparr>, \<lparr>x = 3, y = 0\<rparr>] = \<lparr>x = 3, y = 0\<rparr>"
proof -
  let ?ro = "\<lparr>waypoints = [], obstacles = [], safeDistance = 2\<rparr>"
  let ?a = "\<lparr>x = 0, y = 0\<rparr>" and ?m = "\<lparr>x = 2, y = 0\<rparr>" and ?b = "\<lparr>x = 3, y = 0\<rparr>"
  have dab: "distanceTo_fl binary64 ?a ?b = 3"
    by (simp add: distanceTo_fl_def binary64_values sqrt_values)
  have dmb: "distanceTo_fl binary64 ?m ?b = 1"
    by (simp add: distanceTo_fl_def binary64_values)
  have 1: "subdivision_fl binary64 2 ?b ?m [?m, ?b]"
    by (rule subdivision_fl.append_to) (simp add: dmb)
  have 2: "subdivision_fl binary64 2 ?b ?a [?a, ?m, ?b]"
    by (rule subdivision_fl.insert_point[OF _ refl _ 1])
       (simp_all add: dab binary64_values atan2_east)
  note T = resolver_subdivision[of binary64 ?ro ?a ?b "[?a, ?m, ?b]"]
  note U = resolver_subdivision[of binary64 ?ro ?m ?b "[?m, ?b]"]
  have s: "safeDistance ?ro = 2" by simp
  from T 2 have a: "findSafeRoute_fl binary64 ?ro \<lparr>start = ?a, endpt = ?b\<rparr> = Some [?a, ?m, ?b]"
    unfolding s by blast
  from T 2 have c: "hd [?a, ?m, ?b] = ?a \<and> last [?a, ?m, ?b] = ?b"
    unfolding s by blast
  from U dmb have b: "findSafeRoute_fl binary64 ?ro \<lparr>start = ?m, endpt = ?b\<rparr> = Some [?m, ?b]"
    unfolding s by simp
  from a b c show ?thesis by blast
qed



lemma findSafeRoute_within:
  assumes "distanceTo a b \<le> safeDistance this"
  shows "findSafeRoute this \<lparr>start = a, endpt = b\<rparr> = Some [a, b]"
  using assms unfolding findSafeRoute_def by (subst findSafeRoute_loop.simps) simp



section \<open>The tour builders\<close>





text \<open>
  An iteration removes the selected waypoint from the unvisited array and leaves the
  others; the route grows by the resolved leg, which ends at the selected waypoint. So a
  route that model1's loop returns is the one it started from followed by one leg for every
  selection.
\<close>

lemma remove_nth_mset: "i < length xs \<Longrightarrow> add_mset (xs ! i) (mset (take i xs @ drop (Suc i) xs)) = mset xs"
  by (metis id_take_nth_drop mset.simps(2) mset_append union_mset_add_mset_right)

lemma remove_nth_set: "i < length xs \<Longrightarrow> set xs = insert (xs ! i) (set (take i xs @ drop (Suc i) xs))"
  by (metis remove_nth_mset set_mset_add_mset_insert set_mset_mset)






text \<open>Model2 and the tour builder without a resolver return on every input.\<close>

lemma findSafeRoute_B_shape:
  "\<exists>r'. findSafeRoute_B this s e = Inr (s # r') \<and> r' \<noteq> [] \<and> last r' = e"
proof (cases "list_ex (\<lambda>ob. intersectsWithLineSegment_B ob
             \<lparr>x1 = x s, y1 = y s, x2 = x e, y2 = y e\<rparr>) (obstacles_B this)")
  case True
  from findAlternativeSafePath_B_first[OF True] True show ?thesis
    by (auto simp: findSafeRoute_B_def Let_def)
next
  case False
  then show ?thesis by (simp add: findSafeRoute_B_def Let_def)
qed

lemma tourLoop_B_result:
  "\<exists>ext. tourLoop_B this route unvisited = Inr (route @ ext)
      \<and> set unvisited \<subseteq> set ext \<and> length unvisited \<le> length ext"
proof (induction this route unvisited rule: tourLoop_B.induct)
  case (1 this route)
  show ?case by simp
next
  case (2 this route u us)
  let ?U = "u # us"
  let ?c = "closestWaypoint ?U (last route)"
  obtain i where i: "i < length ?U" "?c = ?U ! i"
      "splice1 ?U (indexOf ?U ?c) = take i ?U @ drop (Suc i) ?U"
    using select_and_remove[of ?U "last route"] by blast
  obtain r' where r': "findSafeRoute_B this (last route) ?c = Inr (last route # r')"
      "r' \<noteq> []" "last r' = ?c"
    using findSafeRoute_B_shape[of this "last route" ?c] by blast
  from "2.IH"[OF refl refl refl r'(1)]
  obtain ext where e: "tourLoop_B this (route @ tl (last route # r')) (splice1 ?U (indexOf ?U ?c))
        = Inr ((route @ tl (last route # r')) @ ext)"
      "set (splice1 ?U (indexOf ?U ?c)) \<subseteq> set ext"
      "length (splice1 ?U (indexOf ?U ?c)) \<le> length ext"
    by blast
  have c_in: "?U ! i \<in> set r'" using r'(2,3) i(2) by (metis last_in_set)
  have 1: "tourLoop_B this route ?U = Inr (route @ (r' @ ext))"
    using r'(1) e(1) by (simp add: Let_def)
  have 2: "set ?U \<subseteq> set (r' @ ext)"
    using e(2) i(3) remove_nth_set[OF i(1)] c_in by auto
  have "length r' \<ge> 1" using r'(2) by (cases r') auto
  then have 3: "length ?U \<le> length (r' @ ext)"
    using e(3) by (simp add: length_splice1_indexOf)
  from 1 2 3 show ?case by blast
qed


lemma optimizeRoute_B_result:
  assumes w: "waypoints_B this = w0 # rest"
  shows "\<exists>r. optimizeRoute_B this = Inr r \<and> Obj ` set (waypoints_B this) \<subseteq> set r
           \<and> (rest \<noteq> [] \<longrightarrow> last r = Obj w0)"
proof -
  obtain ext where ext: "tourLoop_B this [w0] rest = Inr ([w0] @ ext)"
      "set rest \<subseteq> set ext" "length rest \<le> length ext"
    using tourLoop_B_result[of this "[w0]" rest] by blast
  let ?route = "[w0] @ ext"
  show ?thesis
  proof (cases "length ?route > 1")
    case False
    then have "ext = []" by simp
    then have "rest = []" using ext(3) by simp
    then show ?thesis using ext(1) w \<open>ext = []\<close> by (simp add: optimizeRoute_B_def)
  next
    case True
    obtain r' where r': "findSafeRoute_B this (last ?route) (?route ! 0) = Inr (last ?route # r')"
        "r' \<noteq> []" "last r' = ?route ! 0"
      using findSafeRoute_B_shape[of this "last ?route" "?route ! 0"] by blast
    have "optimizeRoute_B this = Inr (map Obj (?route @ r'))"
      using w ext(1) True r'(1) by (simp add: optimizeRoute_B_def)
    moreover have "last (map Obj (?route @ r')) = Obj w0" using r'(2,3) by (simp add: last_map)
    moreover have "Obj ` set (waypoints_B this) \<subseteq> set (map Obj (?route @ r'))"
      using ext(2) w by auto
    ultimately show ?thesis by auto
  qed
qed








section \<open>Obstacles and the route of model1\<close>

text \<open>
  Claim C1 says that no leg of the final Route comes within an obstacle's radius unless the
  leg is flagged. Model1 at a failing input: two waypoints \<open>(0, 0)\<close> and \<open>(10, 0)\<close>, one
  obstacle of radius \<open>2\<close> centred at \<open>(5, 0)\<close>, step length \<open>10\<close>. The Route is
  \<open>[(0, 0), (10, 0), (0, 0)]\<close>; its leg from \<open>(0, 0)\<close> to \<open>(10, 0)\<close> passes through the
  centre of the obstacle (distance \<open>0\<close>), the predicate classifies it as intersecting and
  \<^verbatim>\<open>isSafeRoute\<close> as unsafe. The resolver never consults the obstacles, and a Route
  is a plain array of points: nothing is flagged.
\<close>

theorem unsafe_leg_in_route:
  "optimizeRoute \<lparr>waypoints = [\<lparr>x = 0, y = 0\<rparr>, \<lparr>x = 10, y = 0\<rparr>],
                  obstacles = [\<lparr>x = 5, y = 0, radius = 2\<rparr>], safeDistance = 10\<rparr>
     = Some [Obj \<lparr>x = 0, y = 0\<rparr>, Obj \<lparr>x = 10, y = 0\<rparr>, Obj \<lparr>x = 0, y = 0\<rparr>]
   \<and> distanceToLineSegment \<lparr>x = 5, y = 0, radius = 2\<rparr>
       \<lparr>start = \<lparr>x = 0, y = 0\<rparr>, endpt = \<lparr>x = 10, y = 0\<rparr>\<rparr> = Some 0
   \<and> intersectsWithLineSegment \<lparr>x = 5, y = 0, radius = 2\<rparr>
       \<lparr>start = \<lparr>x = 0, y = 0\<rparr>, endpt = \<lparr>x = 10, y = 0\<rparr>\<rparr>
   \<and> \<not> isSafeRoute \<lparr>waypoints = [\<lparr>x = 0, y = 0\<rparr>, \<lparr>x = 10, y = 0\<rparr>],
                  obstacles = [\<lparr>x = 5, y = 0, radius = 2\<rparr>], safeDistance = 10\<rparr>
       \<lparr>start = \<lparr>x = 0, y = 0\<rparr>, endpt = \<lparr>x = 10, y = 0\<rparr>\<rparr>"
proof -
  let ?a = "\<lparr>x = 0, y = 0\<rparr>" and ?b = "\<lparr>x = 10, y = 0\<rparr>"
  let ?ob = "\<lparr>x = 5, y = 0, radius = 2\<rparr>"
  let ?ro = "\<lparr>waypoints = [?a, ?b], obstacles = [?ob], safeDistance = 10\<rparr>"
  have sq: "sqrt 100 \<le> (10::real)" by (rule real_le_lsqrt) simp_all
  have ab: "distanceTo ?a ?b \<le> safeDistance ?ro" using sq by (simp add: distanceTo_def)
  have ba: "distanceTo ?b ?a \<le> safeDistance ?ro" using sq by (simp add: distanceTo_def)
  have c: "closestWaypoint [?b] ?a = ?b" by (simp add: closestWaypoint_def)
  have i: "splice1 [?b] (indexOf [?b] ?b) = []" by (simp add: splice1_def indexOf_def)
  have t: "tourLoop ?ro [?a] [?b] [] = Some ([?a, ?b], [?b])"
    by (simp add: Let_def c i findSafeRoute_within[OF ab])
  have 1: "optimizeRoute ?ro = Some [Obj ?a, Obj ?b, Obj ?a]"
    by (simp add: optimizeRoute_def t findSafeRoute_within[OF ba] del: tourLoop.simps)
  have 2: "distanceToLineSegment ?ob \<lparr>start = ?a, endpt = ?b\<rparr> = Some 0"
    by (simp add: distanceToLineSegment_def js_div_def Let_def)
  have 3: "intersectsWithLineSegment ?ob \<lparr>start = ?a, endpt = ?b\<rparr>"
    by (simp add: intersectsWithLineSegment_def 2)
  have 4: "\<not> isSafeRoute ?ro \<lparr>start = ?a, endpt = ?b\<rparr>"
    using 3 by (simp add: isSafeRoute_def)
  from 1 2 3 4 show ?thesis by blast
qed

section \<open>Inputs that the specification calls invalid\<close>

text \<open>A computed distance is never negative.\<close>

lemma distanceToLineSegment_nonneg:
  "distanceToLineSegment ob ls = Some d \<Longrightarrow> 0 \<le> d"
  by (auto simp: distanceToLineSegment_def distanceTo_def js_div_def Let_def split: if_splits)

lemma distanceToLineSegment_B_nonneg:
  "distanceToLineSegment_B ob lb = Some d \<Longrightarrow> 0 \<le> d"
  by (auto simp: distanceToLineSegment_B_def js_div_def Let_def split: if_splits)

text \<open>
  Claim C9 says that an empty waypoint sequence, a negative radius or a non-positive step
  length makes \<^verbatim>\<open>optimizeRoute\<close> fail with an InvalidInput error and return no Route.
  It fails on the code: on an empty waypoint sequence both models return the Route
  \<open>[undefined]\<close>, and with one waypoint, an obstacle of radius \<open>-1\<close> and (model1) step
  length \<open>0\<close> both return the Route of that waypoint.
\<close>

theorem invalid_input_not_rejected:
  "optimizeRoute \<lparr>waypoints = [], obstacles = [], safeDistance = 1\<rparr> = Some [Undefined]
   \<and> optimizeRoute_B \<lparr>waypoints_B = [], obstacles_B = []\<rparr> = Inr [Undefined]
   \<and> optimizeRoute \<lparr>waypoints = [\<lparr>x = 0, y = 0\<rparr>], obstacles = [\<lparr>x = 5, y = 0, radius = - 1\<rparr>],
                     safeDistance = 0\<rparr> = Some [Obj \<lparr>x = 0, y = 0\<rparr>]
   \<and> optimizeRoute_B \<lparr>waypoints_B = [\<lparr>x = 0, y = 0\<rparr>],
                       obstacles_B = [\<lparr>x = 5, y = 0, radius = - 1\<rparr>]\<rparr> = Inr [Obj \<lparr>x = 0, y = 0\<rparr>]"
  by (simp add: optimizeRoute_def optimizeRoute_B_def)

text \<open>
  Claim C9 as amended. \<^verbatim>\<open>optimizeRoute\<close> checks none of its inputs and has no
  InvalidInput error. Given an empty waypoint sequence it returns the one-element Route
  \<open>[undefined]\<close>, and given a single waypoint model1 returns the Route of that waypoint,
  whatever the obstacles and the step length. Model2 returns a Route on every input. An
  obstacle of negative radius is accepted and intersects no segment.
\<close>

theorem no_input_validation:
  "optimizeRoute \<lparr>waypoints = [], obstacles = obs, safeDistance = sd\<rparr> = Some [Undefined]
   \<and> optimizeRoute_B \<lparr>waypoints_B = [], obstacles_B = obs\<rparr> = Inr [Undefined]
   \<and> optimizeRoute \<lparr>waypoints = [w], obstacles = obs, safeDistance = sd\<rparr> = Some [Obj w]
   \<and> (\<exists>r. optimizeRoute_B thisB = Inr r)
   \<and> (radius ob < 0 \<longrightarrow> \<not> intersectsWithLineSegment ob ls \<and> \<not> intersectsWithLineSegment_B ob lb)"
proof (intro conjI impI)
  show "optimizeRoute \<lparr>waypoints = [], obstacles = obs, safeDistance = sd\<rparr> = Some [Undefined]"
    by (simp add: optimizeRoute_def)
  show "optimizeRoute_B \<lparr>waypoints_B = [], obstacles_B = obs\<rparr> = Inr [Undefined]"
    by (simp add: optimizeRoute_B_def)
  show "optimizeRoute \<lparr>waypoints = [w], obstacles = obs, safeDistance = sd\<rparr> = Some [Obj w]"
    by (simp add: optimizeRoute_def)
  show "\<exists>r. optimizeRoute_B thisB = Inr r"
  proof (cases "waypoints_B thisB")
    case Nil
    then show ?thesis by (simp add: optimizeRoute_B_def)
  next
    case (Cons w0 rest)
    from optimizeRoute_B_result[OF this] show ?thesis by blast
  qed
next
  assume n: "radius ob < 0"
  show "\<not> intersectsWithLineSegment ob ls"
    using n distanceToLineSegment_nonneg[of ob ls]
    by (auto simp: intersectsWithLineSegment_def split: option.splits)
  show "\<not> intersectsWithLineSegment_B ob lb"
    using n distanceToLineSegment_B_nonneg[of ob lb]
    by (auto simp: intersectsWithLineSegment_B_def split: option.splits)
qed

text \<open>An obstacle of radius \<open>-1\<close> centred on a leg.\<close>

theorem no_input_validation_witness:
  "radius \<lparr>x = 5, y = 0, radius = - 1\<rparr> < 0
   \<and> \<not> intersectsWithLineSegment \<lparr>x = 5, y = 0, radius = - 1\<rparr>
         \<lparr>start = \<lparr>x = 0, y = 0\<rparr>, endpt = \<lparr>x = 10, y = 0\<rparr>\<rparr>
   \<and> \<not> intersectsWithLineSegment_B \<lparr>x = 5, y = 0, radius = - 1\<rparr>
         \<lparr>x1 = 0, y1 = 0, x2 = 10, y2 = 0\<rparr>"
proof -
  let ?ob = "\<lparr>x = 5, y = 0, radius = - 1\<rparr>"
  have n: "radius ?ob < 0" by simp
  show ?thesis
    using n no_input_validation
      [of "[]" 0 "\<lparr>x = 0, y = 0\<rparr>" "\<lparr>waypoints_B = [], obstacles_B = []\<rparr>" ?ob
          "\<lparr>start = \<lparr>x = 0, y = 0\<rparr>, endpt = \<lparr>x = 10, y = 0\<rparr>\<rparr>"
          "\<lparr>x1 = 0, y1 = 0, x2 = 10, y2 = 0\<rparr>"]
    by blast
qed

end
